theory Spec2Isabelle
  imports Complex_Main
begin

section \<open>The pitch tracker of the audio engine (audio.js)\<close>

text \<open>
  JavaScript numbers are modelled as mathematical reals: rounding, NaN and the infinities
  of IEEE doubles are outside the model. The integer-valued counter \<open>jumpCount\<close> is a
  natural number, the note index an integer (the engine uses \<open>-1\<close> for "no note").
\<close>

text \<open>The pitch detection state of the engine: the five module-level variables.\<close>

record tracker =
  smoothedPitch :: real
  smoothedCentsNote :: int
  smoothedCents :: real
  jumpCount :: nat
  jumpCandidate :: real

definition AMPLITUDE_THRESHOLD :: real where
  "AMPLITUDE_THRESHOLD = 0.005"

definition PITCH_SMOOTHING :: real where
  "PITCH_SMOOTHING = 0.7"

definition CENTS_SMOOTHING :: real where
  "CENTS_SMOOTHING = 0.88"

definition CENTS_DEADZONE :: real where
  "CENTS_DEADZONE = 1.5"

definition JUMP_CONFIRM :: nat where
  "JUMP_CONFIRM = 3"

text \<open>The values the variables are declared with.\<close>

definition initial :: tracker where
  "initial = \<lparr>smoothedPitch = 0, smoothedCentsNote = -1, smoothedCents = 0,
              jumpCount = 0, jumpCandidate = 0\<rparr>"

text \<open>
  The two tests of the jump protocol, as \<open>detectLoop\<close> computes them: \<open>isJump\<close> from the
  ratio of the raw pitch to the smoothed pitch, \<open>nearCandidate\<close> from the ratio of the raw
  pitch to the running jump candidate (\<open>0\<close> when there is none).
\<close>

definition isJump :: "real \<Rightarrow> real \<Rightarrow> bool" where
  "isJump pitch smoothed = (let ratio = pitch / smoothed in ratio > 1.8 \<or> ratio < 0.55)"

definition nearCandidate :: "real \<Rightarrow> real \<Rightarrow> bool" where
  "nearCandidate pitch cand =
    (let candRatio = (if cand > 0 then pitch / cand else 0)
     in candRatio > 0.9 \<and> candRatio < 1.1)"

text \<open>
  The bookkeeping of a jump block, before the confirmation test: a block near the running
  candidate is counted, any other block becomes the candidate with count one.
\<close>

definition noteJump :: "tracker \<Rightarrow> real \<Rightarrow> tracker" where
  "noteJump s pitch =
    (if nearCandidate pitch (jumpCandidate s) then s\<lparr>jumpCount := jumpCount s + 1\<rparr>
     else s\<lparr>jumpCandidate := pitch, jumpCount := 1\<rparr>)"

text \<open>
  One run of \<open>detectLoop\<close> from the amplitude gate on. The two numbers the function
  computes from the sample buffer are parameters: \<open>amplitude\<close>, the root mean square of
  the block, and \<open>pitch\<close>, the result of \<open>detectPitch\<close> (a frequency, or \<open>-1\<close>).
  The result is the new state and the pair handed to the \<open>onPitchDetected\<close> callback.
\<close>

definition detectLoop :: "tracker \<Rightarrow> real \<Rightarrow> real \<Rightarrow> tracker \<times> (real \<times> real)" where
  "detectLoop s amplitude pitch =
    (if amplitude < AMPLITUDE_THRESHOLD then
       (s\<lparr>smoothedPitch := 0, smoothedCentsNote := -1\<rparr>, (0, 0))
     else if pitch > 0 \<and> pitch < 5000 then
       (if smoothedPitch s > 0 then
          (if isJump pitch (smoothedPitch s) then
             (let s1 = noteJump s pitch
              in if jumpCount s1 \<ge> JUMP_CONFIRM then
                   (s1\<lparr>smoothedPitch := pitch, jumpCount := 0, jumpCandidate := 0\<rparr>,
                    (pitch, amplitude))
                 else (s1, (smoothedPitch s1, amplitude)))
           else
             (let s1 = s\<lparr>jumpCount := 0, jumpCandidate := 0,
                         smoothedPitch := PITCH_SMOOTHING * smoothedPitch s
                                          + (1 - PITCH_SMOOTHING) * pitch\<rparr>
              in (s1, (smoothedPitch s1, amplitude))))
        else (s\<lparr>smoothedPitch := pitch\<rparr>, (pitch, amplitude)))
     else
       (s\<lparr>smoothedPitch := 0, smoothedCentsNote := -1, jumpCount := 0, jumpCandidate := 0\<rparr>,
        (0, 0)))"

text \<open>\<open>smoothCents\<close>: the new state and the returned value.\<close>

definition smoothCents :: "tracker \<Rightarrow> int \<Rightarrow> real \<Rightarrow> tracker \<times> real" where
  "smoothCents s noteIndex rawCents =
    (if noteIndex \<noteq> smoothedCentsNote s then
       (s\<lparr>smoothedCentsNote := noteIndex, smoothedCents := rawCents\<rparr>, rawCents)
     else if \<bar>rawCents - smoothedCents s\<bar> < CENTS_DEADZONE then
       (s, smoothedCents s)
     else
       (let s1 = s\<lparr>smoothedCents := CENTS_SMOOTHING * smoothedCents s
                                       + (1 - CENTS_SMOOTHING) * rawCents\<rparr>
        in (s1, smoothedCents s1)))"

text \<open>
  The engine is driven by calls: an animation frame runs \<open>detectLoop\<close> on a block, and
  the exported \<open>smoothCents\<close> may be called between frames. \<open>execs\<close> runs a list of calls
  in order and gives the state they leave.
\<close>

datatype call = Block real real | Cents int real

fun exec :: "tracker \<Rightarrow> call \<Rightarrow> tracker" where
  "exec s (Block amplitude pitch) = fst (detectLoop s amplitude pitch)"
| "exec s (Cents noteIndex rawCents) = fst (smoothCents s noteIndex rawCents)"

definition execs :: "tracker \<Rightarrow> call list \<Rightarrow> tracker" where
  "execs s cs = foldl exec s cs"

text \<open>A block passes the gates of \<open>detectLoop\<close>: loud enough, and a pitch in \<open>(0, 5000)\<close>.\<close>

definition voiced :: "real \<Rightarrow> real \<Rightarrow> bool" where
  "voiced amplitude pitch \<longleftrightarrow> AMPLITUDE_THRESHOLD \<le> amplitude \<and> 0 < pitch \<and> pitch < 5000"

text \<open>The range the stored and the reported pitch are meant to stay in.\<close>

definition pitchInRange :: "real \<Rightarrow> bool" where
  "pitchInRange x \<longleftrightarrow> x = 0 \<or> (0 < x \<and> x < 5000)"

section \<open>The callback of the application (app.js)\<close>

text \<open>
  JavaScript's \<open>%\<close> on integers truncates towards zero: the result has the sign of the
  dividend.
\<close>

definition jsRem :: "int \<Rightarrow> int \<Rightarrow> int" where
  "jsRem a b = sgn a * (\<bar>a\<bar> mod \<bar>b\<bar>)"

definition MIDDLE_C :: real where
  "MIDDLE_C = 261.63"

text \<open>
  \<open>processPitch\<close> is the callback the application passes to \<open>startMicrophone\<close>. Its
  effect on the engine is the \<open>smoothCents\<close> call; the display variables it sets are not
  part of the engine state. \<open>Math.round\<close> is \<open>round\<close>: both round halves up.
\<close>

definition processPitch :: "tracker \<Rightarrow> real \<Rightarrow> real \<Rightarrow> tracker" where
  "processPitch s pitch amplitude =
    (if pitch \<le> 0 \<or> amplitude \<le> 0 then s
     else
       (let noteNumber = 12 * log 2 (pitch / MIDDLE_C) + 60;
            roundedNote = round noteNumber;
            noteIndex = jsRem (jsRem roundedNote 12 + 12) 12
        in if noteIndex \<ge> 0 \<and> noteIndex < 12 then
             (let cents0 = (noteNumber - of_int roundedNote) * 100;
                  cents = (if cents0 > 50 then cents0 - 100 else cents0)
              in fst (smoothCents s noteIndex cents))
           else s))"

text \<open>
  One animation frame of the running application: \<open>detectLoop\<close> on the block, then the
  callback on what it reports. \<open>frames\<close> runs a list of blocks, given as pairs of
  amplitude and raw pitch.
\<close>

definition frame :: "tracker \<Rightarrow> real \<times> real \<Rightarrow> tracker" where
  "frame s b =
    (case detectLoop s (fst b) (snd b) of
       (s1, (frequency, amplitude)) \<Rightarrow> processPitch s1 frequency amplitude)"

definition frames :: "tracker \<Rightarrow> (real \<times> real) list \<Rightarrow> tracker" where
  "frames s bs = foldl frame s bs"

section \<open>The pitch estimator: \<open>detectPitch\<close> after the normalised difference\<close>

text \<open>
  Steps 3 to 5 of \<open>detectPitch\<close>, on the buffer \<open>yinBuffer\<close> that steps 1 and 2 have
  filled with the cumulative mean normalised difference for the lags below \<open>maxTau\<close>.
  Its entries are reals here. A candidate is the object \<open>{tau, value}\<close>.
\<close>

record candidate =
  tau :: nat
  val :: real

definition threshold :: real where
  "threshold = 0.20"

text \<open>The inner \<open>while\<close> of step 3: walk to the bottom of the dip.\<close>

function walkDip :: "real list \<Rightarrow> nat \<Rightarrow> nat \<Rightarrow> nat" where
  "walkDip yinBuffer maxTau t =
    (if t + 1 < maxTau \<and> yinBuffer ! (t + 1) < yinBuffer ! t
     then walkDip yinBuffer maxTau (t + 1) else t)"
  by pat_completeness auto
termination
  by (relation "measure (\<lambda>(yinBuffer, maxTau, t). maxTau - t)") auto

declare walkDip.simps [simp del]

lemma walkDip_ge: "t \<le> walkDip yinBuffer maxTau t"
proof (induction yinBuffer maxTau t rule: walkDip.induct)
  case (1 yinBuffer maxTau t)
  then show ?case
    by (subst walkDip.simps) (auto simp del: walkDip.simps)
qed

text \<open>
  The \<open>for\<close> loop of step 3 from lag \<open>t\<close> on: the candidates in the order they are
  pushed. The loop condition \<open>tau < maxTau - 1\<close> is written without subtraction.
\<close>

function collect :: "real list \<Rightarrow> nat \<Rightarrow> nat \<Rightarrow> candidate list" where
  "collect yinBuffer maxTau t =
    (if t + 1 < maxTau then
       (if yinBuffer ! t < threshold then
          (let b = walkDip yinBuffer maxTau t
           in \<lparr>tau = b, val = yinBuffer ! b\<rparr> # collect yinBuffer maxTau (b + 1))
        else collect yinBuffer maxTau (t + 1))
     else [])"
  by pat_completeness auto
termination
proof (relation "measure (\<lambda>(yinBuffer, maxTau, t). maxTau - t)")
  show "wf (measure (\<lambda>(yinBuffer, maxTau, t). maxTau - t))" by simp
next
  fix yinBuffer :: "real list" and maxTau t b :: nat
  assume "t + 1 < maxTau" and "b = walkDip yinBuffer maxTau t"
  moreover have "t \<le> walkDip yinBuffer maxTau t" by (rule walkDip_ge)
  ultimately show "((yinBuffer, maxTau, b + 1), (yinBuffer, maxTau, t))
                     \<in> measure (\<lambda>(yinBuffer, maxTau, t). maxTau - t)"
    by simp
next
  fix yinBuffer :: "real list" and maxTau t :: nat
  assume "t + 1 < maxTau"
  then show "((yinBuffer, maxTau, t + 1), (yinBuffer, maxTau, t))
               \<in> measure (\<lambda>(yinBuffer, maxTau, t). maxTau - t)"
    by simp
qed

declare collect.simps [simp del]

text \<open>Step 4: the loop over the candidates after the first, \<open>best\<close> being the best so far.\<close>

fun pickBest :: "candidate \<Rightarrow> candidate list \<Rightarrow> candidate" where
  "pickBest best [] = best"
| "pickBest best (c # cs) =
     pickBest (if val c < val best * 0.8 then c
               else if val c < val best * 1.2 \<and> real (tau c) > real (tau best) * 1.5 then c
               else best) cs"

text \<open>Step 5: parabolic interpolation around the chosen lag.\<close>

definition betterTau :: "real list \<Rightarrow> nat \<Rightarrow> nat \<Rightarrow> real" where
  "betterTau yinBuffer maxTau tauEstimate =
    (let s0 = (if tauEstimate > 0 then yinBuffer ! (tauEstimate - 1) else yinBuffer ! tauEstimate);
         s1 = yinBuffer ! tauEstimate;
         s2 = (if tauEstimate + 1 < maxTau then yinBuffer ! (tauEstimate + 1)
               else yinBuffer ! tauEstimate);
         denom = 2 * (2 * s1 - s2 - s0)
     in if denom \<noteq> 0 then real tauEstimate + (s0 - s2) / denom else real tauEstimate)"

text \<open>
  Steps 3 to 5 together: \<open>None\<close> where \<open>detectPitch\<close> returns \<open>-1\<close> for want of a
  candidate, else the refined lag that the sample rate is then divided by.
\<close>

definition refinedLag :: "real list \<Rightarrow> nat \<Rightarrow> nat \<Rightarrow> real option" where
  "refinedLag yinBuffer minTau maxTau =
    (case collect yinBuffer maxTau minTau of
       [] \<Rightarrow> None
     | c # cs \<Rightarrow> Some (betterTau yinBuffer maxTau (tau (pickBest c cs))))"

text \<open>
  The selection rule in the words of the specification, with its three named factors: one
  step of a left-to-right fold over the candidates.
\<close>

definition candidateStrongFactor :: real where
  "candidateStrongFactor = 0.8"

definition candidateSimilarFactor :: real where
  "candidateSimilarFactor = 1.2"

definition candidateFundamentalTauFactor :: real where
  "candidateFundamentalTauFactor = 1.5"

definition replaces :: "candidate \<Rightarrow> candidate \<Rightarrow> bool" where
  "replaces c best \<longleftrightarrow>
     val c < val best * candidateStrongFactor
     \<or> (val c < val best * candidateSimilarFactor
        \<and> real (tau c) > real (tau best) * candidateFundamentalTauFactor)"

definition selectStep :: "candidate \<Rightarrow> candidate \<Rightarrow> candidate" where
  "selectStep best c = (if replaces c best then c else best)"

section \<open>Cents smoothing\<close>

text \<open>
  C6: a \<open>smoothCents\<close> call whose note index differs from the stored one returns the raw
  cents unchanged and stores the new index and the raw cents, whatever was stored before.
\<close>

theorem smoothCents_note_change:
  assumes "noteIndex \<noteq> smoothedCentsNote s"
  shows "snd (smoothCents s noteIndex rawCents) = rawCents
       \<and> smoothedCentsNote (fst (smoothCents s noteIndex rawCents)) = noteIndex
       \<and> smoothedCents (fst (smoothCents s noteIndex rawCents)) = rawCents"
  using assms by (simp add: smoothCents_def)

theorem smoothCents_note_change_witness:
  "(4::int) \<noteq> smoothedCentsNote (initial\<lparr>smoothedCentsNote := 9, smoothedCents := 37\<rparr>)
   \<and> snd (smoothCents (initial\<lparr>smoothedCentsNote := 9, smoothedCents := 37\<rparr>) 4 (-12)) = -12
   \<and> smoothedCentsNote
        (fst (smoothCents (initial\<lparr>smoothedCentsNote := 9, smoothedCents := 37\<rparr>) 4 (-12))) = 4"
  using smoothCents_note_change
          [of 4 "initial\<lparr>smoothedCentsNote := 9, smoothedCents := 37\<rparr>" "-12"]
  by (simp add: initial_def)

lemma smoothCents_stores_result:
  "smoothedCentsNote (fst (smoothCents s noteIndex rawCents)) = noteIndex
   \<and> smoothedCents (fst (smoothCents s noteIndex rawCents)) = snd (smoothCents s noteIndex rawCents)"
  by (simp add: smoothCents_def Let_def)

text \<open>
  C5 as stated fails: the dead zone is measured from the stored smoothed value, not from
  the previous raw value. With note 5 stored at 0 cents, the raw values 40 and 41 (one cent
  apart) are both far from the stored value, and the two calls return 4.8 and 9.144.
\<close>

theorem smoothCents_deadzone_counterexample:
  "fst (smoothCents initial 5 0) = initial\<lparr>smoothedCentsNote := 5\<rparr>
   \<and> \<bar>41 - 40\<bar> < CENTS_DEADZONE
   \<and> snd (smoothCents (initial\<lparr>smoothedCentsNote := 5\<rparr>) 5 40) = 4.8
   \<and> snd (smoothCents (fst (smoothCents (initial\<lparr>smoothedCentsNote := 5\<rparr>) 5 40)) 5 41) = 9.144"
  by (simp add: smoothCents_def initial_def CENTS_DEADZONE_def CENTS_SMOOTHING_def Let_def)

text \<open>
  C5, amended: of two consecutive \<open>smoothCents\<close> calls with the same note index, the
  second returns what the first returned, and leaves the state alone, when its raw cents
  are less than 1.5 from the value the first call returned. This is so in particular when
  the first call changed the note (it then returned its own raw cents) and the two raw
  values are less than 1.5 apart.
\<close>

theorem smoothCents_deadzone:
  "(\<bar>r2 - snd (smoothCents s n r1)\<bar> < CENTS_DEADZONE
      \<longrightarrow> smoothCents (fst (smoothCents s n r1)) n r2
            = (fst (smoothCents s n r1), snd (smoothCents s n r1)))
   \<and> (n \<noteq> smoothedCentsNote s \<and> \<bar>r2 - r1\<bar> < CENTS_DEADZONE
      \<longrightarrow> snd (smoothCents s n r1) = r1
          \<and> snd (smoothCents (fst (smoothCents s n r1)) n r2) = r1)"
proof (intro conjI impI)
  let ?t = "fst (smoothCents s n r1)"
  assume "\<bar>r2 - snd (smoothCents s n r1)\<bar> < CENTS_DEADZONE"
  then have "\<bar>r2 - smoothedCents ?t\<bar> < CENTS_DEADZONE" and "n = smoothedCentsNote ?t"
    by (simp_all add: smoothCents_stores_result)
  then have "smoothCents ?t n r2 = (?t, smoothedCents ?t)"
    by (simp add: smoothCents_def [of ?t])
  then show "smoothCents ?t n r2 = (?t, snd (smoothCents s n r1))"
    by (simp add: smoothCents_stores_result)
next
  assume h: "n \<noteq> smoothedCentsNote s \<and> \<bar>r2 - r1\<bar> < CENTS_DEADZONE"
  then show "snd (smoothCents s n r1) = r1"
    by (simp add: smoothCents_def)
  from h show "snd (smoothCents (fst (smoothCents s n r1)) n r2) = r1"
    by (simp add: smoothCents_def)
qed

theorem smoothCents_deadzone_witness:
  "\<bar>5.5 - snd (smoothCents (initial\<lparr>smoothedCentsNote := 5\<rparr>) 5 40)\<bar> < CENTS_DEADZONE
   \<and> snd (smoothCents (initial\<lparr>smoothedCentsNote := 5\<rparr>) 5 40) = 4.8
   \<and> snd (smoothCents (fst (smoothCents (initial\<lparr>smoothedCentsNote := 5\<rparr>) 5 40)) 5 5.5) = 4.8
   \<and> (7::int) \<noteq> smoothedCentsNote initial \<and> \<bar>(21::real) - 20\<bar> < CENTS_DEADZONE
   \<and> snd (smoothCents initial 7 20) = 20
   \<and> snd (smoothCents (fst (smoothCents initial 7 20)) 7 21) = 20"
proof -
  let ?s = "initial\<lparr>smoothedCentsNote := 5\<rparr>"
  have v: "snd (smoothCents ?s 5 40) = 4.8"
    by (simp add: smoothCents_def initial_def CENTS_DEADZONE_def CENTS_SMOOTHING_def Let_def)
  have h1: "\<bar>5.5 - snd (smoothCents ?s 5 40)\<bar> < CENTS_DEADZONE"
    unfolding v by (simp add: CENTS_DEADZONE_def)
  have h2: "(7::int) \<noteq> smoothedCentsNote initial \<and> \<bar>(21::real) - 20\<bar> < CENTS_DEADZONE"
    by (simp add: initial_def CENTS_DEADZONE_def)
  have c1: "snd (smoothCents (fst (smoothCents ?s 5 40)) 5 5.5) = 4.8"
    using smoothCents_deadzone [of "5.5" ?s 5 40, THEN conjunct1, THEN mp, OF h1] v
    by simp
  have c2: "snd (smoothCents initial 7 20) = 20
      \<and> snd (smoothCents (fst (smoothCents initial 7 20)) 7 21) = 20"
    using smoothCents_deadzone [of 21 initial 7 20, THEN conjunct2, THEN mp, OF h2] .
  show ?thesis
    using h1 v c1 h2 c2 by simp
qed

section \<open>Helper facts about one block\<close>

lemma detectLoop_quiet:
  "amplitude < AMPLITUDE_THRESHOLD \<Longrightarrow>
   detectLoop s amplitude pitch = (s\<lparr>smoothedPitch := 0, smoothedCentsNote := -1\<rparr>, (0, 0))"
  by (simp add: detectLoop_def)

lemma detectLoop_unvoiced:
  "\<not> amplitude < AMPLITUDE_THRESHOLD \<Longrightarrow> \<not> (pitch > 0 \<and> pitch < 5000) \<Longrightarrow>
   detectLoop s amplitude pitch =
     (s\<lparr>smoothedPitch := 0, smoothedCentsNote := -1, jumpCount := 0, jumpCandidate := 0\<rparr>,
      (0, 0))"
  by (cases "pitch > 0") (simp_all add: detectLoop_def)

lemma detectLoop_first:
  "voiced amplitude pitch \<Longrightarrow> \<not> smoothedPitch s > 0 \<Longrightarrow>
   detectLoop s amplitude pitch = (s\<lparr>smoothedPitch := pitch\<rparr>, (pitch, amplitude))"
  by (simp add: detectLoop_def voiced_def)

lemma detectLoop_blend:
  "voiced amplitude pitch \<Longrightarrow> smoothedPitch s > 0 \<Longrightarrow> \<not> isJump pitch (smoothedPitch s) \<Longrightarrow>
   detectLoop s amplitude pitch =
     (s\<lparr>jumpCount := 0, jumpCandidate := 0,
        smoothedPitch := PITCH_SMOOTHING * smoothedPitch s + (1 - PITCH_SMOOTHING) * pitch\<rparr>,
      (PITCH_SMOOTHING * smoothedPitch s + (1 - PITCH_SMOOTHING) * pitch, amplitude))"
  by (simp add: detectLoop_def voiced_def Let_def)

lemma detectLoop_pending:
  "voiced amplitude pitch \<Longrightarrow> smoothedPitch s > 0 \<Longrightarrow> isJump pitch (smoothedPitch s) \<Longrightarrow>
   jumpCount (noteJump s pitch) < JUMP_CONFIRM \<Longrightarrow>
   detectLoop s amplitude pitch = (noteJump s pitch, (smoothedPitch s, amplitude))"
  by (simp add: detectLoop_def voiced_def Let_def noteJump_def)

lemma detectLoop_confirm:
  "voiced amplitude pitch \<Longrightarrow> smoothedPitch s > 0 \<Longrightarrow> isJump pitch (smoothedPitch s) \<Longrightarrow>
   JUMP_CONFIRM \<le> jumpCount (noteJump s pitch) \<Longrightarrow>
   detectLoop s amplitude pitch =
     ((noteJump s pitch)\<lparr>smoothedPitch := pitch, jumpCount := 0, jumpCandidate := 0\<rparr>,
      (pitch, amplitude))"
  by (simp add: detectLoop_def voiced_def Let_def)

lemma smoothedPitch_noteJump: "smoothedPitch (noteJump s pitch) = smoothedPitch s"
  by (simp add: noteJump_def)

section \<open>Jump confirmation\<close>




lemma blend_in_band:
  assumes "0 < sp" and "0 < f" and "\<not> isJump f sp"
  shows "\<not> isJump f (PITCH_SMOOTHING * sp + (1 - PITCH_SMOOTHING) * f)"
proof -
  let ?b = "PITCH_SMOOTHING * sp + (1 - PITCH_SMOOTHING) * f"
  have b: "0 < ?b"
    using assms by (simp add: PITCH_SMOOTHING_def add_pos_pos)
  have "f / sp \<le> 1.8" and "0.55 \<le> f / sp"
    using assms(3) by (simp_all add: isJump_def Let_def not_less)
  then have "f \<le> 1.8 * sp" and "0.55 * sp \<le> f"
    using assms(1) by (simp_all add: field_simps)
  then have "f \<le> 1.8 * ?b" and "0.55 * ?b \<le> f"
    using assms(1,2) by (simp_all add: PITCH_SMOOTHING_def)
  then have "f / ?b \<le> 1.8" and "0.55 \<le> f / ?b"
    using b by (simp_all add: field_simps)
  then show ?thesis
    by (simp add: isJump_def Let_def not_less)
qed

text \<open>
  What the jump protocol does suppress. A voiced jump block whose count, after the block is
  booked, is still below the confirmation count leaves the smoothed pitch as it was and
  reports it. When the tracker holds a pitch that the block of frequency \<open>f\<close> agrees
  with (no jump), an outlier block after it, with a ratio above 1.8, does not change the
  smoothed pitch and is answered with it, the next block of \<open>f\<close> leaves the state as if
  the outlier had never come, and a tracker that was at \<open>f\<close> exactly is at \<open>f\<close> after
  all three blocks. The same holds when the first block of \<open>f\<close> is the first voiced one,
  for a tracker whose jump count is below two (as in the initial state).
\<close>

theorem unconfirmed_jump_suppressed:
  "(voiced a p \<and> smoothedPitch s > 0 \<and> isJump p (smoothedPitch s)
      \<and> jumpCount (noteJump s p) < JUMP_CONFIRM
    \<longrightarrow> smoothedPitch (fst (detectLoop s a p)) = smoothedPitch s
        \<and> snd (detectLoop s a p) = (smoothedPitch s, a))
   \<and> (smoothedPitch s > 0 \<and> \<not> isJump f (smoothedPitch s)
       \<and> voiced a1 f \<and> voiced a2 out \<and> voiced a3 f
       \<and> out / smoothedPitch (execs s [Block a1 f]) > 1.8
    \<longrightarrow> smoothedPitch (execs s [Block a1 f, Block a2 out]) = smoothedPitch (execs s [Block a1 f])
        \<and> snd (detectLoop (execs s [Block a1 f]) a2 out)
            = (smoothedPitch (execs s [Block a1 f]), a2)
        \<and> execs s [Block a1 f, Block a2 out, Block a3 f] = execs s [Block a1 f, Block a3 f]
        \<and> (smoothedPitch s = f
             \<longrightarrow> smoothedPitch (execs s [Block a1 f, Block a2 out, Block a3 f]) = f))
   \<and> (smoothedPitch s = 0 \<and> jumpCount s + 1 < JUMP_CONFIRM
       \<and> voiced a1 f \<and> voiced a2 out \<and> voiced a3 f \<and> out / f > 1.8
    \<longrightarrow> smoothedPitch (execs s [Block a1 f]) = f
        \<and> smoothedPitch (execs s [Block a1 f, Block a2 out]) = f
        \<and> snd (detectLoop (execs s [Block a1 f]) a2 out) = (f, a2)
        \<and> smoothedPitch (execs s [Block a1 f, Block a2 out, Block a3 f]) = f)"
proof (intro conjI impI)
  assume h: "voiced a p \<and> smoothedPitch s > 0 \<and> isJump p (smoothedPitch s)
      \<and> jumpCount (noteJump s p) < JUMP_CONFIRM"
  then have d: "detectLoop s a p = (noteJump s p, (smoothedPitch s, a))"
    by (simp add: detectLoop_pending)
  show "smoothedPitch (fst (detectLoop s a p)) = smoothedPitch s"
    using d by (simp add: smoothedPitch_noteJump)
  show "snd (detectLoop s a p) = (smoothedPitch s, a)"
    using d by simp
next
  assume h: "smoothedPitch s > 0 \<and> \<not> isJump f (smoothedPitch s)
       \<and> voiced a1 f \<and> voiced a2 out \<and> voiced a3 f
       \<and> out / smoothedPitch (execs s [Block a1 f]) > 1.8"
  let ?b = "PITCH_SMOOTHING * smoothedPitch s + (1 - PITCH_SMOOTHING) * f"
  let ?s1 = "s\<lparr>jumpCount := 0, jumpCandidate := 0, smoothedPitch := ?b\<rparr>"
  let ?s2 = "?s1\<lparr>jumpCandidate := out, jumpCount := 1\<rparr>"
  from h have sp: "smoothedPitch s > 0" and nj: "\<not> isJump f (smoothedPitch s)"
    and v1: "voiced a1 f" and v2: "voiced a2 out" and v3: "voiced a3 f" by simp_all
  have fpos: "0 < f" using v1 by (simp add: voiced_def)
  have d1: "detectLoop s a1 f = (?s1, (?b, a1))"
    using detectLoop_blend [OF v1 sp nj] .
  then have e1: "execs s [Block a1 f] = ?s1"
    by (simp add: execs_def)
  have b: "0 < ?b"
    using sp fpos by (simp add: PITCH_SMOOTHING_def add_pos_pos)
  have jo: "isJump out (smoothedPitch ?s1)"
    using h e1 by (simp add: isJump_def Let_def)
  have nj2: "noteJump ?s1 out = ?s2"
    by (simp add: noteJump_def nearCandidate_def)
  have d2: "detectLoop ?s1 a2 out = (?s2, (?b, a2))"
    using detectLoop_pending [of a2 out ?s1] v2 b jo nj2 by (simp add: JUMP_CONFIRM_def)
  have nb: "\<not> isJump f ?b"
    using blend_in_band [OF sp fpos nj] .
  have d3: "detectLoop ?s2 a3 f =
      (?s1\<lparr>smoothedPitch := PITCH_SMOOTHING * ?b + (1 - PITCH_SMOOTHING) * f\<rparr>,
       (PITCH_SMOOTHING * ?b + (1 - PITCH_SMOOTHING) * f, a3))"
    using detectLoop_blend [of a3 f ?s2] v3 b nb by simp
  have d3': "detectLoop ?s1 a3 f =
      (?s1\<lparr>smoothedPitch := PITCH_SMOOTHING * ?b + (1 - PITCH_SMOOTHING) * f\<rparr>,
       (PITCH_SMOOTHING * ?b + (1 - PITCH_SMOOTHING) * f, a3))"
    using detectLoop_blend [of a3 f ?s1] v3 b nb by simp
  show "smoothedPitch (execs s [Block a1 f, Block a2 out]) = smoothedPitch (execs s [Block a1 f])"
    using d1 d2 by (simp add: execs_def)
  show "snd (detectLoop (execs s [Block a1 f]) a2 out) = (smoothedPitch (execs s [Block a1 f]), a2)"
    using e1 d2 by simp
  show "execs s [Block a1 f, Block a2 out, Block a3 f] = execs s [Block a1 f, Block a3 f]"
    using d1 d2 d3 d3' by (simp add: execs_def)
  show "smoothedPitch (execs s [Block a1 f, Block a2 out, Block a3 f]) = f"
    if "smoothedPitch s = f"
    using that d1 d2 d3 by (simp add: execs_def PITCH_SMOOTHING_def)
next
  assume h: "smoothedPitch s = 0 \<and> jumpCount s + 1 < JUMP_CONFIRM
       \<and> voiced a1 f \<and> voiced a2 out \<and> voiced a3 f \<and> out / f > 1.8"
  let ?s1 = "s\<lparr>smoothedPitch := f\<rparr>"
  let ?s2 = "noteJump ?s1 out"
  from h have v1: "voiced a1 f" and v2: "voiced a2 out" and v3: "voiced a3 f" by simp_all
  have fpos: "0 < f" using v1 by (simp add: voiced_def)
  have d1: "detectLoop s a1 f = (?s1, (f, a1))"
    using detectLoop_first [OF v1, of s] h by simp
  have jo: "isJump out (smoothedPitch ?s1)"
    using h by (simp add: isJump_def Let_def)
  have cnt: "jumpCount ?s2 < JUMP_CONFIRM"
    using h by (simp add: noteJump_def JUMP_CONFIRM_def)
  have d2: "detectLoop ?s1 a2 out = (?s2, (f, a2))"
    using detectLoop_pending [of a2 out ?s1] v2 fpos jo cnt by simp
  have sp2: "smoothedPitch ?s2 = f"
    by (simp add: smoothedPitch_noteJump)
  have nb: "\<not> isJump f (smoothedPitch ?s2)"
    using fpos by (simp add: sp2 isJump_def Let_def)
  have d3: "smoothedPitch (fst (detectLoop ?s2 a3 f)) = f"
    using detectLoop_blend [of a3 f ?s2] v3 fpos nb sp2 by (simp add: PITCH_SMOOTHING_def)
  show "smoothedPitch (execs s [Block a1 f]) = f"
    using d1 by (simp add: execs_def)
  show "smoothedPitch (execs s [Block a1 f, Block a2 out]) = f"
    using d1 d2 sp2 by (simp add: execs_def)
  show "snd (detectLoop (execs s [Block a1 f]) a2 out) = (f, a2)"
    using d1 d2 by (simp add: execs_def)
  show "smoothedPitch (execs s [Block a1 f, Block a2 out, Block a3 f]) = f"
    using d1 d2 d3 by (simp add: execs_def)
qed

theorem unconfirmed_jump_suppressed_witness:
  "voiced 0.2 900 \<and> isJump 900 440
   \<and> jumpCount (noteJump (initial\<lparr>smoothedPitch := 440\<rparr>) 900) < JUMP_CONFIRM
   \<and> smoothedPitch (fst (detectLoop (initial\<lparr>smoothedPitch := 440\<rparr>) 0.2 900)) = 440
   \<and> snd (detectLoop (initial\<lparr>smoothedPitch := 440\<rparr>) 0.2 900) = (440, 0.2)
   \<and> \<not> isJump 440 440 \<and> voiced 0.1 440
   \<and> 900 / smoothedPitch (execs (initial\<lparr>smoothedPitch := 440\<rparr>) [Block 0.1 440]) > 1.8
   \<and> smoothedPitch (execs (initial\<lparr>smoothedPitch := 440\<rparr>)
        [Block 0.1 440, Block 0.2 900, Block 0.1 440]) = 440
   \<and> smoothedPitch initial = 0 \<and> jumpCount initial + 1 < JUMP_CONFIRM \<and> (900::real) / 440 > 1.8
   \<and> smoothedPitch (execs initial [Block 0.1 440, Block 0.2 900]) = 440
   \<and> smoothedPitch (execs initial [Block 0.1 440, Block 0.2 900, Block 0.1 440]) = 440"
proof -
  let ?s = "initial\<lparr>smoothedPitch := 440\<rparr>"
  note T = unconfirmed_jump_suppressed [of "0.2" 900 ?s 440 "0.1" "0.2" 900 "0.1"]
  note U = unconfirmed_jump_suppressed [of "0.2" 900 initial 440 "0.1" "0.2" 900 "0.1"]
  have e1: "execs ?s [Block 0.1 440] = ?s"
    by (simp add: execs_def detectLoop_def initial_def isJump_def AMPLITUDE_THRESHOLD_def
        PITCH_SMOOTHING_def Let_def)
  have hyps: "voiced 0.2 900 \<and> isJump 900 440 \<and> \<not> isJump 440 440 \<and> voiced 0.1 440
      \<and> jumpCount (noteJump ?s 900) < JUMP_CONFIRM"
    by (simp add: voiced_def isJump_def noteJump_def nearCandidate_def initial_def
        AMPLITUDE_THRESHOLD_def JUMP_CONFIRM_def Let_def)
  have h1: "voiced 0.2 900 \<and> smoothedPitch ?s > 0 \<and> isJump 900 (smoothedPitch ?s)
      \<and> jumpCount (noteJump ?s 900) < JUMP_CONFIRM"
    using hyps by simp
  have r: "900 / smoothedPitch (execs ?s [Block 0.1 440]) > 1.8"
    unfolding e1 by simp
  have h2: "smoothedPitch ?s > 0 \<and> \<not> isJump 440 (smoothedPitch ?s)
       \<and> voiced 0.1 440 \<and> voiced 0.2 900 \<and> voiced 0.1 440
       \<and> 900 / smoothedPitch (execs ?s [Block 0.1 440]) > 1.8"
    using hyps r by simp
  have i: "smoothedPitch initial = 0 \<and> jumpCount initial + 1 < JUMP_CONFIRM
      \<and> (900::real) / 440 > 1.8"
    by (simp add: initial_def JUMP_CONFIRM_def)
  have h3: "smoothedPitch initial = 0 \<and> jumpCount initial + 1 < JUMP_CONFIRM
       \<and> voiced 0.1 440 \<and> voiced 0.2 900 \<and> voiced 0.1 440 \<and> (900::real) / 440 > 1.8"
    using hyps i by simp
  have c1: "smoothedPitch (fst (detectLoop ?s 0.2 900)) = smoothedPitch ?s
      \<and> snd (detectLoop ?s 0.2 900) = (smoothedPitch ?s, 0.2)"
    using T [THEN conjunct1, THEN mp, OF h1] .
  have c2: "smoothedPitch (execs ?s [Block 0.1 440, Block 0.2 900, Block 0.1 440]) = 440"
    using T [THEN conjunct2, THEN conjunct1, THEN mp, OF h2,
        THEN conjunct2, THEN conjunct2, THEN conjunct2]
    by simp
  have c3: "smoothedPitch (execs initial [Block 0.1 440, Block 0.2 900]) = 440
      \<and> smoothedPitch (execs initial [Block 0.1 440, Block 0.2 900, Block 0.1 440]) = 440"
    using U [THEN conjunct2, THEN conjunct2, THEN mp, OF h3] by simp
  show ?thesis
    using hyps r c1 c2 i c3 by simp
qed

text \<open>
  C2 does not hold after a quiet block. Blocks of 100, 300 and 300 Hz leave a candidate of
  300 Hz counted twice; a block below the amplitude threshold sets the smoothed pitch to 0
  but keeps the candidate and its count. The tone of 100 Hz then comes back: its block is
  adopted as the smoothed pitch, the single outlier of 300 Hz after it (ratio 3) is counted
  as the third block of the old candidate, and the smoothed pitch becomes 300 Hz, which is
  also what the following block of 100 Hz is answered with.
\<close>

theorem single_outlier_after_pause_confirms:
  "execs initial [Block 0.1 100, Block 0.1 300, Block 0.1 300, Block 0.001 100, Block 0.1 100] =
     \<lparr>smoothedPitch = 100, smoothedCentsNote = -1, smoothedCents = 0,
      jumpCount = 2, jumpCandidate = 300\<rparr>
   \<and> voiced 0.1 100 \<and> voiced 0.1 300 \<and> (300::real) / 100 > 1.8
   \<and> detectLoop \<lparr>smoothedPitch = 100, smoothedCentsNote = -1, smoothedCents = 0,
                 jumpCount = 2, jumpCandidate = 300\<rparr> 0.1 300 =
       (\<lparr>smoothedPitch = 300, smoothedCentsNote = -1, smoothedCents = 0,
         jumpCount = 0, jumpCandidate = 0\<rparr>, (300, 0.1))
   \<and> detectLoop \<lparr>smoothedPitch = 300, smoothedCentsNote = -1, smoothedCents = 0,
                 jumpCount = 0, jumpCandidate = 0\<rparr> 0.1 100 =
       (\<lparr>smoothedPitch = 300, smoothedCentsNote = -1, smoothedCents = 0,
         jumpCount = 1, jumpCandidate = 100\<rparr>, (300, 0.1))
   \<and> smoothedPitch (execs initial [Block 0.1 100, Block 0.1 300, Block 0.1 300,
        Block 0.001 100, Block 0.1 100, Block 0.1 300, Block 0.1 100]) = 300"
  by (simp add: execs_def detectLoop_def initial_def isJump_def nearCandidate_def
      noteJump_def voiced_def AMPLITUDE_THRESHOLD_def JUMP_CONFIRM_def Let_def)

section \<open>The reset paths\<close>

text \<open>
  C3 does not hold on the amplitude gate. After blocks of 100, 300 and 300 Hz a candidate
  of 300 Hz has been counted twice. A block below the amplitude threshold then sets the
  smoothed pitch to 0 and the note index to \<open>-1\<close> and reports \<open>(0, 0)\<close>, but it keeps
  the candidate and its count; a loud block without a pitch clears them. The count that
  survived lets a single 300 Hz block after the pause confirm the jump.
\<close>

theorem amplitude_gate_keeps_jump_state:
  "execs initial [Block 0.1 100, Block 0.1 300, Block 0.1 300] =
     \<lparr>smoothedPitch = 100, smoothedCentsNote = -1, smoothedCents = 0,
      jumpCount = 2, jumpCandidate = 300\<rparr>
   \<and> detectLoop \<lparr>smoothedPitch = 100, smoothedCentsNote = -1, smoothedCents = 0,
                 jumpCount = 2, jumpCandidate = 300\<rparr> 0.001 300 =
       (\<lparr>smoothedPitch = 0, smoothedCentsNote = -1, smoothedCents = 0,
         jumpCount = 2, jumpCandidate = 300\<rparr>, (0, 0))
   \<and> detectLoop \<lparr>smoothedPitch = 100, smoothedCentsNote = -1, smoothedCents = 0,
                 jumpCount = 2, jumpCandidate = 300\<rparr> 0.1 (-1) =
       (\<lparr>smoothedPitch = 0, smoothedCentsNote = -1, smoothedCents = 0,
         jumpCount = 0, jumpCandidate = 0\<rparr>, (0, 0))
   \<and> execs \<lparr>smoothedPitch = 0, smoothedCentsNote = -1, smoothedCents = 0,
             jumpCount = 2, jumpCandidate = 300\<rparr> [Block 0.1 100, Block 0.1 300] =
       \<lparr>smoothedPitch = 300, smoothedCentsNote = -1, smoothedCents = 0,
        jumpCount = 0, jumpCandidate = 0\<rparr>"
  by (simp add: execs_def detectLoop_def initial_def isJump_def nearCandidate_def
      noteJump_def AMPLITUDE_THRESHOLD_def JUMP_CONFIRM_def Let_def)

section \<open>Smoothing of the pitch\<close>

text \<open>
  C8: on a voiced block, a tracker with a smoothed pitch and a ratio within
  \<open>[0.55, 1.8]\<close> clears the jump state, sets the smoothed pitch to 0.7 times the old
  value plus 0.3 times the raw pitch and reports that value; a tracker with no smoothed
  pitch takes the raw pitch as it is.
\<close>

theorem in_band_block_blends:
  assumes "voiced amplitude pitch"
  shows "(smoothedPitch s > 0 \<and> 0.55 \<le> pitch / smoothedPitch s \<and> pitch / smoothedPitch s \<le> 1.8
           \<longrightarrow> detectLoop s amplitude pitch =
                 (s\<lparr>jumpCount := 0, jumpCandidate := 0,
                    smoothedPitch := 0.7 * smoothedPitch s + 0.3 * pitch\<rparr>,
                  (0.7 * smoothedPitch s + 0.3 * pitch, amplitude)))
       \<and> (smoothedPitch s = 0
           \<longrightarrow> detectLoop s amplitude pitch = (s\<lparr>smoothedPitch := pitch\<rparr>, (pitch, amplitude)))"
proof (intro conjI impI)
  assume h: "smoothedPitch s > 0 \<and> 0.55 \<le> pitch / smoothedPitch s \<and> pitch / smoothedPitch s \<le> 1.8"
  then have "\<not> isJump pitch (smoothedPitch s)"
    by (simp add: isJump_def Let_def not_less)
  with h assms show "detectLoop s amplitude pitch =
                 (s\<lparr>jumpCount := 0, jumpCandidate := 0,
                    smoothedPitch := 0.7 * smoothedPitch s + 0.3 * pitch\<rparr>,
                  (0.7 * smoothedPitch s + 0.3 * pitch, amplitude))"
    by (simp add: detectLoop_blend PITCH_SMOOTHING_def)
next
  assume "smoothedPitch s = 0"
  with assms show "detectLoop s amplitude pitch = (s\<lparr>smoothedPitch := pitch\<rparr>, (pitch, amplitude))"
    by (simp add: detectLoop_first)
qed

theorem in_band_block_blends_witness:
  "voiced 0.1 450
   \<and> (0.55::real) \<le> 450 / 440 \<and> (450::real) / 440 \<le> 1.8
   \<and> detectLoop (initial\<lparr>smoothedPitch := 440, jumpCount := 2, jumpCandidate := 900\<rparr>) 0.1 450 =
       (initial\<lparr>smoothedPitch := 443\<rparr>, (443, 0.1))
   \<and> detectLoop initial 0.1 450 = (initial\<lparr>smoothedPitch := 450\<rparr>, (450, 0.1))"
proof -
  have v: "voiced 0.1 450"
    by (simp add: voiced_def AMPLITUDE_THRESHOLD_def)
  show ?thesis
    using v in_band_block_blends [OF v, of "initial\<lparr>smoothedPitch := 440, jumpCount := 2,
        jumpCandidate := 900\<rparr>"] in_band_block_blends [OF v, of initial]
    by (simp add: initial_def)
qed

section \<open>The range of the pitch\<close>

lemma detectLoop_range:
  assumes "pitchInRange (smoothedPitch s)"
  shows "pitchInRange (smoothedPitch (fst (detectLoop s amplitude pitch)))
       \<and> pitchInRange (fst (snd (detectLoop s amplitude pitch)))"
proof (cases "amplitude < AMPLITUDE_THRESHOLD")
  case True
  then show ?thesis by (simp add: detectLoop_quiet pitchInRange_def)
next
  case loud: False
  show ?thesis
  proof (cases "pitch > 0 \<and> pitch < 5000")
    case False
    with loud show ?thesis by (simp add: detectLoop_unvoiced pitchInRange_def)
  next
    case True
    with loud have v: "voiced amplitude pitch" by (simp add: voiced_def)
    show ?thesis
    proof (cases "smoothedPitch s > 0")
      case False
      with v True show ?thesis by (simp add: detectLoop_first pitchInRange_def)
    next
      case sp: True
      with assms have sp5: "smoothedPitch s < 5000" by (simp add: pitchInRange_def)
      show ?thesis
      proof (cases "isJump pitch (smoothedPitch s)")
        case False
        have "0 < PITCH_SMOOTHING * smoothedPitch s + (1 - PITCH_SMOOTHING) * pitch"
          and "PITCH_SMOOTHING * smoothedPitch s + (1 - PITCH_SMOOTHING) * pitch < 5000"
          using sp sp5 True by (simp_all add: PITCH_SMOOTHING_def)
        with v sp False show ?thesis by (simp add: detectLoop_blend pitchInRange_def)
      next
        case jump: True
        show ?thesis
        proof (cases "jumpCount (noteJump s pitch) < JUMP_CONFIRM")
          case True
          with v sp sp5 jump show ?thesis
            by (simp add: detectLoop_pending pitchInRange_def smoothedPitch_noteJump)
        next
          case False
          with v sp jump \<open>pitch > 0 \<and> pitch < 5000\<close> show ?thesis
            by (simp add: detectLoop_confirm pitchInRange_def not_less)
        qed
      qed
    qed
  qed
qed

lemma smoothedPitch_smoothCents:
  "smoothedPitch (fst (smoothCents s noteIndex rawCents)) = smoothedPitch s"
  by (simp add: smoothCents_def Let_def)

lemma exec_range: "pitchInRange (smoothedPitch s) \<Longrightarrow> pitchInRange (smoothedPitch (exec s c))"
  by (cases c) (simp_all add: detectLoop_range smoothedPitch_smoothCents)

lemma foldl_exec_range:
  "pitchInRange (smoothedPitch s) \<Longrightarrow> pitchInRange (smoothedPitch (foldl exec s cs))"
  by (induction cs arbitrary: s) (simp_all add: exec_range)

text \<open>
  C10: after any sequence of calls from the initial state (blocks, and \<open>smoothCents\<close>
  calls between them), the stored smoothed pitch is 0 or strictly between 0 and 5000, and
  so is the frequency the next block reports, whatever the block.
\<close>

theorem pitch_stays_in_range:
  "pitchInRange (smoothedPitch (execs initial cs))
   \<and> pitchInRange (fst (snd (detectLoop (execs initial cs) amplitude pitch)))"
proof -
  have "pitchInRange (smoothedPitch initial)"
    by (simp add: initial_def pitchInRange_def)
  then have "pitchInRange (smoothedPitch (execs initial cs))"
    unfolding execs_def by (rule foldl_exec_range)
  then show ?thesis
    by (simp add: detectLoop_range)
qed


section \<open>No pitch and the note index\<close>

lemma detectLoop_reports_zero:
  assumes "fst (snd (detectLoop s amplitude pitch)) = 0"
  shows "detectLoop s amplitude pitch = (s\<lparr>smoothedPitch := 0, smoothedCentsNote := -1\<rparr>, (0, 0))
       \<or> detectLoop s amplitude pitch =
           (s\<lparr>smoothedPitch := 0, smoothedCentsNote := -1, jumpCount := 0, jumpCandidate := 0\<rparr>,
            (0, 0))"
proof (cases "amplitude < AMPLITUDE_THRESHOLD")
  case True
  then show ?thesis by (simp add: detectLoop_quiet)
next
  case loud: False
  show ?thesis
  proof (cases "pitch > 0 \<and> pitch < 5000")
    case False
    with loud show ?thesis by (simp add: detectLoop_unvoiced)
  next
    case True
    with loud have v: "voiced amplitude pitch" by (simp add: voiced_def)
    have "fst (snd (detectLoop s amplitude pitch)) > 0"
    proof (cases "smoothedPitch s > 0")
      case False
      with v True show ?thesis by (simp add: detectLoop_first)
    next
      case sp: True
      show ?thesis
      proof (cases "isJump pitch (smoothedPitch s)")
        case False
        have "0 < PITCH_SMOOTHING * smoothedPitch s + (1 - PITCH_SMOOTHING) * pitch"
          using sp True by (simp add: PITCH_SMOOTHING_def add_pos_pos)
        with v sp False show ?thesis by (simp add: detectLoop_blend)
      next
        case jump: True
        show ?thesis
        proof (cases "jumpCount (noteJump s pitch) < JUMP_CONFIRM")
          case True
          with v sp jump show ?thesis by (simp add: detectLoop_pending)
        next
          case False
          with v sp jump \<open>pitch > 0 \<and> pitch < 5000\<close> show ?thesis
            by (simp add: detectLoop_confirm not_less)
        qed
      qed
    qed
    with assms show ?thesis by simp
  qed
qed

lemma detectLoop_zero_or_pitch:
  "(fst (snd (detectLoop s amplitude pitch)) = 0
      \<and> smoothedPitch (fst (detectLoop s amplitude pitch)) = 0
      \<and> smoothedCentsNote (fst (detectLoop s amplitude pitch)) = -1)
   \<or> 0 < smoothedPitch (fst (detectLoop s amplitude pitch))"
proof (cases "amplitude < AMPLITUDE_THRESHOLD")
  case True
  then show ?thesis by (simp add: detectLoop_quiet)
next
  case loud: False
  show ?thesis
  proof (cases "pitch > 0 \<and> pitch < 5000")
    case False
    with loud show ?thesis by (simp add: detectLoop_unvoiced)
  next
    case True
    with loud have v: "voiced amplitude pitch" by (simp add: voiced_def)
    have "0 < smoothedPitch (fst (detectLoop s amplitude pitch))"
    proof (cases "smoothedPitch s > 0")
      case False
      with v True show ?thesis by (simp add: detectLoop_first)
    next
      case sp: True
      show ?thesis
      proof (cases "isJump pitch (smoothedPitch s)")
        case False
        have "0 < PITCH_SMOOTHING * smoothedPitch s + (1 - PITCH_SMOOTHING) * pitch"
          using sp True by (simp add: PITCH_SMOOTHING_def add_pos_pos)
        with v sp False show ?thesis by (simp add: detectLoop_blend)
      next
        case jump: True
        show ?thesis
        proof (cases "jumpCount (noteJump s pitch) < JUMP_CONFIRM")
          case True
          with v sp jump show ?thesis
            by (simp add: detectLoop_pending smoothedPitch_noteJump)
        next
          case False
          with v sp jump \<open>pitch > 0 \<and> pitch < 5000\<close> show ?thesis
            by (simp add: detectLoop_confirm not_less)
        qed
      qed
    qed
    then show ?thesis by simp
  qed
qed

lemma smoothedPitch_processPitch:
  "smoothedPitch (processPitch s frequency amplitude) = smoothedPitch s"
  by (simp add: processPitch_def Let_def smoothedPitch_smoothCents)

lemma processPitch_no_pitch: "processPitch s 0 amplitude = s"
  by (simp add: processPitch_def)

lemma frame_unset:
  "smoothedPitch (frame s b) = 0 \<longrightarrow> smoothedCentsNote (frame s b) = -1"
proof (cases "detectLoop s (fst b) (snd b)")
  case (fields s1 frequency amplitude)
  from detectLoop_zero_or_pitch [of s "fst b" "snd b"] fields
  consider "frequency = 0 \<and> smoothedPitch s1 = 0 \<and> smoothedCentsNote s1 = -1"
    | "0 < smoothedPitch s1"
    by auto
  then show ?thesis
  proof cases
    case 1
    with fields show ?thesis by (simp add: frame_def processPitch_no_pitch)
  next
    case 2
    with fields show ?thesis by (simp add: frame_def smoothedPitch_processPitch)
  qed
qed

lemma frames_unset:
  "smoothedPitch s = 0 \<longrightarrow> smoothedCentsNote s = -1 \<Longrightarrow>
   smoothedPitch (foldl frame s bs) = 0 \<longrightarrow> smoothedCentsNote (foldl frame s bs) = -1"
proof (induction bs arbitrary: s)
  case Nil
  then show ?case by simp
next
  case (Cons b bs)
  have "smoothedPitch (foldl frame (frame s b) bs) = 0
        \<longrightarrow> smoothedCentsNote (foldl frame (frame s b) bs) = -1"
    by (rule Cons.IH) (rule frame_unset)
  then show ?case by simp
qed

lemma frame_quiet:
  "amplitude < AMPLITUDE_THRESHOLD \<Longrightarrow>
   frame s (amplitude, pitch) = s\<lparr>smoothedPitch := 0, smoothedCentsNote := -1\<rparr>"
  by (simp add: frame_def detectLoop_quiet processPitch_no_pitch)

lemma jsRem_noteIndex: "0 \<le> jsRem (jsRem k 12 + 12) 12 \<and> jsRem (jsRem k 12 + 12) 12 < 12"
proof -
  have "0 \<le> \<bar>k\<bar> mod 12" and "\<bar>k\<bar> mod 12 < 12" by simp_all
  then have "- 12 < sgn k * (\<bar>k\<bar> mod 12)" and "sgn k * (\<bar>k\<bar> mod 12) < 12"
    by (cases "k < 0"; cases "k = 0"; simp)+
  then have "0 < jsRem k 12 + 12" by (simp add: jsRem_def)
  then have "jsRem (jsRem k 12 + 12) 12 = (jsRem k 12 + 12) mod 12"
    by (simp add: jsRem_def [of "jsRem k 12 + 12"])
  then show ?thesis by simp
qed

text \<open>
  C9: a block that reports frequency 0 leaves the note index at \<open>-1\<close>. In the running
  application (each frame is \<open>detectLoop\<close> followed by the callback), every state reached
  from the initial one that has no smoothed pitch has the note index \<open>-1\<close>. After a block
  that reported no pitch, a \<open>smoothCents\<close> call with a note index that is not negative
  returns its raw cents, whatever cents were stored before; the index the callback
  computes lies in \<open>0..11\<close>.
\<close>

theorem no_pitch_unsets_note:
  "(fst (snd (detectLoop s amplitude pitch)) = 0
      \<longrightarrow> smoothedCentsNote (fst (detectLoop s amplitude pitch)) = -1)
   \<and> (smoothedPitch (frames initial bs) = 0 \<longrightarrow> smoothedCentsNote (frames initial bs) = -1)
   \<and> (fst (snd (detectLoop s amplitude pitch)) = 0 \<and> 0 \<le> noteIndex
      \<longrightarrow> snd (smoothCents (fst (detectLoop s amplitude pitch)) noteIndex rawCents) = rawCents)
   \<and> 0 \<le> jsRem (jsRem k 12 + 12) 12 \<and> jsRem (jsRem k 12 + 12) 12 < 12"
proof (intro conjI impI)
  assume "fst (snd (detectLoop s amplitude pitch)) = 0"
  from detectLoop_reports_zero [OF this]
  show "smoothedCentsNote (fst (detectLoop s amplitude pitch)) = -1"
    by auto
next
  have "smoothedPitch initial = 0 \<longrightarrow> smoothedCentsNote initial = -1"
    by (simp add: initial_def)
  from frames_unset [OF this]
  have "smoothedPitch (frames initial bs) = 0 \<longrightarrow> smoothedCentsNote (frames initial bs) = -1"
    by (simp add: frames_def)
  then show "smoothedCentsNote (frames initial bs) = -1" if "smoothedPitch (frames initial bs) = 0"
    using that by simp
next
  assume h: "fst (snd (detectLoop s amplitude pitch)) = 0 \<and> 0 \<le> noteIndex"
  then have "smoothedCentsNote (fst (detectLoop s amplitude pitch)) = -1"
    using detectLoop_reports_zero [of s amplitude pitch] by auto
  with h have "noteIndex \<noteq> smoothedCentsNote (fst (detectLoop s amplitude pitch))"
    by simp
  then show "snd (smoothCents (fst (detectLoop s amplitude pitch)) noteIndex rawCents) = rawCents"
    by (simp add: smoothCents_def)
next
  show "0 \<le> jsRem (jsRem k 12 + 12) 12" and "jsRem (jsRem k 12 + 12) 12 < 12"
    using jsRem_noteIndex [of k] by simp_all
qed

theorem no_pitch_unsets_note_witness:
  "fst (snd (detectLoop (initial\<lparr>smoothedPitch := 440, smoothedCentsNote := 9,
       smoothedCents := 37\<rparr>) 0.001 440)) = 0
   \<and> smoothedCentsNote (fst (detectLoop (initial\<lparr>smoothedPitch := 440, smoothedCentsNote := 9,
       smoothedCents := 37\<rparr>) 0.001 440)) = -1
   \<and> smoothedPitch (frames initial [(0.1, 440), (0.001, 440)]) = 0
   \<and> smoothedCentsNote (frames initial [(0.1, 440), (0.001, 440)]) = -1
   \<and> (0::int) \<le> 9
   \<and> snd (smoothCents (fst (detectLoop (initial\<lparr>smoothedPitch := 440, smoothedCentsNote := 9,
       smoothedCents := 37\<rparr>) 0.001 440)) 9 (-20)) = -20"
proof -
  let ?s = "initial\<lparr>smoothedPitch := 440, smoothedCentsNote := 9, smoothedCents := 37\<rparr>"
  let ?bs = "[(0.1, 440), (0.001, 440)] :: (real \<times> real) list"
  note T = no_pitch_unsets_note [of ?s "0.001" 440 ?bs 9 "-20" 0]
  have z: "fst (snd (detectLoop ?s 0.001 440)) = 0"
    by (simp add: detectLoop_def AMPLITUDE_THRESHOLD_def)
  have f: "smoothedPitch (frames initial ?bs) = 0"
    by (simp add: frames_def frame_quiet AMPLITUDE_THRESHOLD_def)
  have c1: "smoothedCentsNote (fst (detectLoop ?s 0.001 440)) = -1"
    using T [THEN conjunct1, THEN mp, OF z] .
  have c2: "smoothedCentsNote (frames initial ?bs) = -1"
    using T [THEN conjunct2, THEN conjunct1, THEN mp, OF f] .
  have c3: "snd (smoothCents (fst (detectLoop ?s 0.001 440)) 9 (-20)) = -20"
    using T [THEN conjunct2, THEN conjunct2, THEN conjunct1, THEN mp] z by simp
  show ?thesis
    using z f c1 c2 c3 by simp
qed


section \<open>The estimator: choice of the candidate\<close>

lemma pickBest_fold: "pickBest best cs = foldl selectStep best cs"
  by (induction cs arbitrary: best)
     (simp_all add: selectStep_def replaces_def candidateStrongFactor_def
        candidateSimilarFactor_def candidateFundamentalTauFactor_def)

lemma collect_increasing:
  "sorted_wrt (\<lambda>a b. tau a < tau b) (collect yinBuffer maxTau t)
   \<and> (\<forall>c \<in> set (collect yinBuffer maxTau t). t \<le> tau c)"
proof (induction yinBuffer maxTau t rule: collect.induct)
  case (1 yinBuffer maxTau t)
  show ?case
  proof (cases "t + 1 < maxTau")
    case False
    then show ?thesis by (subst collect.simps, subst (2) collect.simps) simp
  next
    case more: True
    show ?thesis
    proof (cases "yinBuffer ! t < threshold")
      case False
      with more "1.IH"(2) have
        "sorted_wrt (\<lambda>a b. tau a < tau b) (collect yinBuffer maxTau (t + 1))
         \<and> (\<forall>c \<in> set (collect yinBuffer maxTau (t + 1)). t + 1 \<le> tau c)"
        by simp
      moreover have "collect yinBuffer maxTau t = collect yinBuffer maxTau (t + 1)"
        using more False by (subst collect.simps) simp
      ultimately show ?thesis by auto
    next
      case True
      let ?b = "walkDip yinBuffer maxTau t"
      from more True "1.IH"(1) have
        "sorted_wrt (\<lambda>a b. tau a < tau b) (collect yinBuffer maxTau (?b + 1))
         \<and> (\<forall>c \<in> set (collect yinBuffer maxTau (?b + 1)). ?b + 1 \<le> tau c)"
        by simp
      moreover have "collect yinBuffer maxTau t =
          \<lparr>tau = ?b, val = yinBuffer ! ?b\<rparr> # collect yinBuffer maxTau (?b + 1)"
        using more True by (subst collect.simps) (simp add: Let_def)
      moreover have "t \<le> ?b" by (rule walkDip_ge)
      ultimately show ?thesis by auto
    qed
  qed
qed

lemma pickBest_keeps:
  "\<forall>c \<in> set cs. \<not> replaces c best \<Longrightarrow> pickBest best cs = best"
  by (induction cs)
     (auto simp add: replaces_def candidateStrongFactor_def candidateSimilarFactor_def
        candidateFundamentalTauFactor_def)

text \<open>
  C4 as stated fails in its consequence. The buffer below has dips at the lags 5, 10 and
  20, with the values 0.10, 0.11 and 0.12: the candidates at 5 and 10 are a second
  harmonic and its fundamental, comparably strong. The fundamental replaces the harmonic,
  and the candidate at lag 20 then replaces the fundamental by the same rule, so the
  candidate chosen is the one at lag 20. With a much stronger candidate at lag 25 ahead of
  a pair at 50 and 100, neither of the pair is chosen.
\<close>

theorem fundamental_not_selected_counterexample:
  "collect [1, 1, 1, 1, 1, 0.10, 1, 1, 1, 1, 0.11, 1, 1, 1, 1, 1, 1, 1, 1, 1, 0.12, 1, 1, 1] 24 1 =
     [\<lparr>tau = 5, val = 0.10\<rparr>, \<lparr>tau = 10, val = 0.11\<rparr>, \<lparr>tau = 20, val = 0.12\<rparr>]
   \<and> tau \<lparr>tau = 10, val = 0.11\<rparr> = 2 * tau \<lparr>tau = 5, val = 0.10\<rparr>
   \<and> val \<lparr>tau = 10, val = 0.11\<rparr> < val \<lparr>tau = 5, val = 0.10\<rparr> * candidateSimilarFactor
   \<and> val \<lparr>tau = 5, val = 0.10\<rparr> < val \<lparr>tau = 10, val = 0.11\<rparr> * candidateSimilarFactor
   \<and> pickBest \<lparr>tau = 5, val = 0.10\<rparr> [\<lparr>tau = 10, val = 0.11\<rparr>, \<lparr>tau = 20, val = 0.12\<rparr>]
       = \<lparr>tau = 20, val = 0.12\<rparr>
   \<and> pickBest \<lparr>tau = 25, val = 0.01\<rparr> [\<lparr>tau = 50, val = 0.10\<rparr>, \<lparr>tau = 100, val = 0.11\<rparr>]
       = \<lparr>tau = 25, val = 0.01\<rparr>"
proof -
  have "collect [1, 1, 1, 1, 1, 0.10, 1, 1, 1, 1, 0.11, 1, 1, 1, 1, 1, 1, 1, 1, 1, 0.12, 1, 1, 1] 24 1 =
     [\<lparr>tau = 5, val = 0.10\<rparr>, \<lparr>tau = 10, val = 0.11\<rparr>, \<lparr>tau = 20, val = 0.12\<rparr>]"
    by code_simp
  then show ?thesis
    by (simp add: candidateSimilarFactor_def)
qed

text \<open>
  C4, amended: for the first candidate \<open>c\<close> and the candidates \<open>cs\<close> after it, the loop of
  step 4 is the left-to-right fold, seeded with \<open>c\<close>, of the step that replaces the best
  so far by a candidate exactly when the candidate's value is below 0.8 times the best
  value, or below 1.2 times the best value with a lag above 1.5 times the best lag. So when
  the best so far \<open>h\<close> sits at the lag of the second harmonic and the next candidate
  \<open>f0\<close> at twice that lag (the fundamental), with a value below 1.2 times that of \<open>h\<close>,
  then \<open>f0\<close> becomes the best at that step; it is the candidate selected when no later
  candidate replaces it in turn, in particular when the two are all the candidates.
\<close>

theorem best_candidate_selection:
  "pickBest c cs = foldl selectStep c cs
   \<and> (0 < tau h \<and> tau f0 = 2 * tau h \<and> val f0 < val h * candidateSimilarFactor
      \<longrightarrow> pickBest h (f0 # rest) = pickBest f0 rest
          \<and> ((\<forall>d \<in> set rest. \<not> replaces d f0) \<longrightarrow> pickBest h (f0 # rest) = f0)
          \<and> pickBest h [f0] = f0)"
proof (intro conjI impI)
  show "pickBest c cs = foldl selectStep c cs"
    by (rule pickBest_fold)
next
  assume h: "0 < tau h \<and> tau f0 = 2 * tau h \<and> val f0 < val h * candidateSimilarFactor"
  then have "real (tau f0) > real (tau h) * 1.5"
    by simp
  with h have step: "(if val f0 < val h * 0.8 then f0
      else if val f0 < val h * 1.2 \<and> real (tau f0) > real (tau h) * 1.5 then f0 else h) = f0"
    by (simp add: candidateSimilarFactor_def)
  show one: "pickBest h (f0 # rest) = pickBest f0 rest"
    by (simp only: pickBest.simps step)
  show "pickBest h (f0 # rest) = f0" if "\<forall>d \<in> set rest. \<not> replaces d f0"
    using one pickBest_keeps [OF that] by simp
  show "pickBest h [f0] = f0"
    by (simp only: pickBest.simps step)
qed

theorem best_candidate_selection_witness:
  "(0::nat) < tau \<lparr>tau = 50, val = 0.10\<rparr>
   \<and> tau \<lparr>tau = 100, val = 0.11\<rparr> = 2 * tau \<lparr>tau = 50, val = 0.10\<rparr>
   \<and> val \<lparr>tau = 100, val = 0.11\<rparr> < val \<lparr>tau = 50, val = 0.10\<rparr> * candidateSimilarFactor
   \<and> \<not> replaces \<lparr>tau = 150, val = 0.15\<rparr> \<lparr>tau = 100, val = 0.11\<rparr>
   \<and> pickBest \<lparr>tau = 50, val = 0.10\<rparr> [\<lparr>tau = 100, val = 0.11\<rparr>, \<lparr>tau = 150, val = 0.15\<rparr>]
       = \<lparr>tau = 100, val = 0.11\<rparr>
   \<and> pickBest \<lparr>tau = 50, val = 0.10\<rparr> [\<lparr>tau = 100, val = 0.11\<rparr>] = \<lparr>tau = 100, val = 0.11\<rparr>"
proof -
  let ?h = "\<lparr>tau = 50, val = 0.10\<rparr>"
  let ?f = "\<lparr>tau = 100, val = 0.11\<rparr>"
  let ?rest = "[\<lparr>tau = 150, val = 0.15\<rparr>]"
  have h: "(0::nat) < tau ?h \<and> tau ?f = 2 * tau ?h \<and> val ?f < val ?h * candidateSimilarFactor"
    by (simp add: candidateSimilarFactor_def)
  have k: "\<forall>d \<in> set ?rest. \<not> replaces d ?f"
    by (simp add: replaces_def candidateStrongFactor_def candidateSimilarFactor_def
        candidateFundamentalTauFactor_def)
  note T = best_candidate_selection [of ?h "[]" ?h ?f ?rest, THEN conjunct2, THEN mp, OF h]
  have c1: "pickBest ?h (?f # ?rest) = ?f"
    using T [THEN conjunct2, THEN conjunct1, THEN mp, OF k] .
  have c2: "pickBest ?h [?f] = ?f"
    using T [THEN conjunct2, THEN conjunct2] .
  show ?thesis
    using h k c1 c2 by simp
qed

section \<open>The estimator: sub-sample refinement\<close>

text \<open>
  C7: let \<open>s0\<close>, \<open>s1\<close>, \<open>s2\<close> be the buffer values at the lags before, at and after the
  chosen lag, the centre value standing in for a neighbour that falls off the range
  \<open>0 ..< maxTau\<close>, and let the denominator be \<open>2 * (2 * s1 - s2 - s0)\<close>. The refined lag
  is the chosen lag plus \<open>(s0 - s2)\<close> over the denominator when that is not zero, and the
  chosen lag otherwise. When \<open>s0 = s2\<close>, as at the bottom of a symmetric dip, the refined
  lag is the chosen lag itself.
\<close>

theorem parabolic_refinement:
  assumes "tauEstimate < maxTau" and "maxTau \<le> length yinBuffer"
    and "s0 = (if tauEstimate = 0 then yinBuffer ! tauEstimate else yinBuffer ! (tauEstimate - 1))"
    and "s1 = yinBuffer ! tauEstimate"
    and "s2 = (if tauEstimate + 1 = maxTau then yinBuffer ! tauEstimate
               else yinBuffer ! (tauEstimate + 1))"
  shows "(2 * (2 * s1 - s2 - s0) \<noteq> 0
          \<longrightarrow> betterTau yinBuffer maxTau tauEstimate
              = real tauEstimate + (s0 - s2) / (2 * (2 * s1 - s2 - s0)))
       \<and> (2 * (2 * s1 - s2 - s0) = 0
          \<longrightarrow> betterTau yinBuffer maxTau tauEstimate = real tauEstimate)
       \<and> (s0 = s2 \<longrightarrow> betterTau yinBuffer maxTau tauEstimate = real tauEstimate)"
proof -
  have e0: "(if tauEstimate > 0 then yinBuffer ! (tauEstimate - 1) else yinBuffer ! tauEstimate) = s0"
    using assms(3) by simp
  have "tauEstimate + 1 < maxTau \<longleftrightarrow> tauEstimate + 1 \<noteq> maxTau"
    using assms(1) by arith
  then have e2: "(if tauEstimate + 1 < maxTau then yinBuffer ! (tauEstimate + 1)
                  else yinBuffer ! tauEstimate) = s2"
    using assms(5) by simp
  have b: "betterTau yinBuffer maxTau tauEstimate =
      (if 2 * (2 * s1 - s2 - s0) \<noteq> 0 then real tauEstimate + (s0 - s2) / (2 * (2 * s1 - s2 - s0))
       else real tauEstimate)"
    by (simp only: betterTau_def Let_def e0 e2, simp only: assms(4))
  show ?thesis
    unfolding b by simp
qed

theorem parabolic_refinement_witness:
  "refinedLag [1, 0.66, 0.38, 0.18, 0.06, 0.02, 0.06, 0.18, 0.38, 0.66] 1 10 =
     Some (betterTau [1, 0.66, 0.38, 0.18, 0.06, 0.02, 0.06, 0.18, 0.38, 0.66] 10 5)
   \<and> (2::real) * (2 * 0.02 - 0.06 - 0.06) \<noteq> 0
   \<and> betterTau [1, 0.66, 0.38, 0.18, 0.06, 0.02, 0.06, 0.18, 0.38, 0.66] 10 5 = 5
   \<and> (2::real) * (2 * 0.1 - 0.1 - 0.1) = 0
   \<and> betterTau [1, 0.1, 0.1, 0.1] 4 3 = 3"
proof -
  let ?dip = "[1, 0.66, 0.38, 0.18, 0.06, 0.02, 0.06, 0.18, 0.38, 0.66] :: real list"
  let ?flat = "[1, 0.1, 0.1, 0.1] :: real list"
  have sel: "collect ?dip 10 1 =
      [\<lparr>tau = 5, val = 0.02\<rparr>, \<lparr>tau = 6, val = 0.06\<rparr>, \<lparr>tau = 7, val = 0.18\<rparr>]"
    by code_simp
  have best: "pickBest \<lparr>tau = 5, val = 0.02\<rparr> [\<lparr>tau = 6, val = 0.06\<rparr>, \<lparr>tau = 7, val = 0.18\<rparr>]
      = \<lparr>tau = 5, val = 0.02\<rparr>"
    by simp
  have lag: "refinedLag ?dip 1 10 = Some (betterTau ?dip 10 5)"
    unfolding refinedLag_def sel by (simp add: best)
  have d: "betterTau ?dip 10 5 = 5"
    using parabolic_refinement [of 5 10 ?dip "0.06" "0.02" "0.06"] by simp
  have f: "betterTau ?flat 4 3 = 3"
    using parabolic_refinement [of 3 4 ?flat "0.1" "0.1" "0.1"] by simp
  show ?thesis
    using lag d f by simp
qed

end
